theory Spec2Isabelle
  imports Main "HOL-Library.Word" "HOL-Library.Sublist" "HOL-Library.AList"
begin

section \<open>Configuration of the ts-dns forwarder (cmd/conf/conf.go)\<close>

text \<open>
  The theory embeds \<^verbatim>\<open>cmd/conf/conf.go\<close>: the configuration structures, the
  defaulting of fields, the construction of upstream callers, of the cache and of the
  hosts readers, and \<^verbatim>\<open>NewHandler\<close>, which packs all of it into a handler.

  Conventions of the embedding:
  \<^item> a Go \<^verbatim>\<open>string\<close> is a byte sequence, here \<^typ>\<open>string\<close>;
  \<^item> a Go \<^verbatim>\<open>int\<close> is a 64-bit two's-complement integer (the size it has on
    amd64 and arm64), here \<^typ>\<open>64 word\<close>; \<^verbatim>\<open>time.Duration\<close> is an
    \<^verbatim>\<open>int64\<close> counting nanoseconds, also \<^typ>\<open>64 word\<close>;
  \<^item> a Go map that the code iterates over is an association list in the order of the
    iteration (an order Go leaves unspecified, so every theorem holds for any order);
  \<^item> a nil pointer is \<^const>\<open>None\<close>, and dereferencing it is the outcome
    \<open>Panicked\<close>;
  \<^item> a function of another package whose result depends on files or on the kernel is a
    field of the environment record \<open>env\<close>.
\<close>

subsection \<open>Go's string functions\<close>

text \<open>\<^verbatim>\<open>strings.HasSuffix(s, suffix)\<close>:
  \<^verbatim>\<open>len(s) >= len(suffix) && s[len(s)-len(suffix):] == suffix\<close>.\<close>

definition HasSuffix :: "string \<Rightarrow> string \<Rightarrow> bool" where
  "HasSuffix s suf = (length s \<ge> length suf \<and> drop (length s - length suf) s = suf)"

text \<open>\<^verbatim>\<open>strings.HasPrefix(s, prefix)\<close>:
  \<^verbatim>\<open>len(s) >= len(prefix) && s[:len(prefix)] == prefix\<close>.\<close>

definition HasPrefix :: "string \<Rightarrow> string \<Rightarrow> bool" where
  "HasPrefix s pre = (length s \<ge> length pre \<and> take (length pre) s = pre)"

text \<open>\<^verbatim>\<open>strings.Contains(s, substr)\<close>: \<open>substr\<close> occurs in \<open>s\<close> at some
  offset.\<close>

fun Contains :: "string \<Rightarrow> string \<Rightarrow> bool" where
  "Contains [] substr = (substr = [])"
| "Contains (c # s) substr = (HasPrefix (c # s) substr \<or> Contains s substr)"

text \<open>\<^verbatim>\<open>strings.Split(s, sep)\<close> for a separator of one byte, the only use in the
  source (\<^verbatim>\<open>strings.Split(addr, "@")\<close>): the pieces of \<open>s\<close> between the
  occurrences of the separator, one more than there are occurrences.\<close>

fun Split :: "string \<Rightarrow> char \<Rightarrow> string list" where
  "Split [] sep = [[]]"
| "Split (c # s) sep =
     (if c = sep then [] # Split s sep
      else (case Split s sep of [] \<Rightarrow> [[c]] | piece # pieces \<Rightarrow> (c # piece) # pieces))"

text \<open>\<^verbatim>\<open>strings.Join(elems, sep)\<close>.\<close>

fun Join :: "string list \<Rightarrow> string \<Rightarrow> string" where
  "Join [] sep = []"
| "Join [e] sep = e"
| "Join (e # es) sep = e @ sep @ Join es sep"

subsection \<open>The configuration structures\<close>

type_synonym go_int = "64 word"
type_synonym Duration = "64 word"

text \<open>\<^verbatim>\<open>time.Second\<close>, in nanoseconds.\<close>

definition Second :: Duration where
  "Second = 1000000000"

text \<open>\<^verbatim>\<open>type Group struct\<close>.\<close>

record Group =
  Socks5 :: string
  IPSet :: string
  IPSetTTL :: go_int
  DNS :: "string list"
  DoT :: "string list"
  DoH :: "string list"
  Concurrent :: bool
  Rules :: "string list"

text \<open>\<^verbatim>\<open>type Cache struct\<close>.\<close>

record Cache =
  Size :: go_int
  MinTTL :: go_int
  MaxTTL :: go_int

text \<open>\<^verbatim>\<open>type Conf struct\<close>. The field \<open>Cache\<close> is a pointer, nil when the
  file has no cache section; \<open>Hosts\<close> and \<open>Groups\<close> are maps, listed in the order
  \<^verbatim>\<open>range\<close> visits them.\<close>

record Conf =
  Listen :: string
  GFWList :: string
  CNIP :: string
  HostsFiles :: "string list"
  Hosts :: "(string \<times> string) list"
  Cache :: "Cache option"
  Groups :: "(string \<times> Group) list"

subsection \<open>SetDefault\<close>

definition SetDefault :: "Conf \<Rightarrow> Conf" where
  "SetDefault conf =
     (let conf = (if Listen conf = '''' then conf\<lparr>Listen := '':53''\<rparr> else conf);
          conf = (if GFWList conf = '''' then conf\<lparr>GFWList := ''gfwlist.txt''\<rparr> else conf);
          conf = (if CNIP conf = '''' then conf\<lparr>CNIP := ''cnip.txt''\<rparr> else conf)
      in conf)"

subsection \<open>Values of the other packages\<close>

text \<open>A Go \<^verbatim>\<open>error\<close>, identified with its message: \<^verbatim>\<open>fmt.Errorf(msg)\<close>
  builds one, \<^verbatim>\<open>err.Error()\<close> (what \<^verbatim>\<open>%v\<close> prints) reads it.\<close>

datatype error = Errorf string

fun Error :: "error \<Rightarrow> string" where
  "Error (Errorf msg) = msg"

text \<open>What a call does: it returns a value, or the goroutine panics (here always on a
  nil pointer dereference).\<close>

datatype 'a outcome = Panicked | Returned 'a

text \<open>The entries written through logrus: level, fields, message.\<close>

datatype level = ErrorLevel | WarnLevel

datatype log_entry = Entry level "(string \<times> string) list" string

text \<open>\<^verbatim>\<open>proxy.SOCKS5(network, address, nil, proxy.Direct)\<close>; a nil
  \<^verbatim>\<open>proxy.Dialer\<close> is \<^const>\<open>None\<close>.\<close>

datatype Dialer = SOCKS5 string string

text \<open>An \<^verbatim>\<open>outbound.Caller\<close> is represented by the constructor call that built
  it, with its arguments: \<^verbatim>\<open>NewDNSCaller(address, network, dialer)\<close>,
  \<^verbatim>\<open>NewDoTCaller(address, serverName, dialer)\<close>,
  \<^verbatim>\<open>NewDoHCaller(url, dialer)\<close>.\<close>

datatype Caller =
    is_DNSCaller: NewDNSCaller string string "Dialer option"
  | is_DoTCaller: NewDoTCaller string string "Dialer option"
  | is_DoHCaller: NewDoHCaller string "Dialer option"

text \<open>The functions of other packages whose results depend on files, on the kernel, or
  whose code is not part of \<^verbatim>\<open>conf.go\<close>. The type variables are the matcher
  (\<open>'m\<close>), the CN-IP set (\<open>'s\<close>), the hosts reader (\<open>'r\<close>), the IPSet handle
  (\<open>'i\<close>) and the cache (\<open>'c\<close>).\<close>

record ('m, 's, 'r, 'i, 'c) env =
  DecodeFile :: "string \<Rightarrow> error + Conf"
  NewABPByFile :: "string \<Rightarrow> bool \<Rightarrow> error + 'm"
  NewABPByText :: "string \<Rightarrow> 'm"
  NewRamSetByFile :: "string \<Rightarrow> error + 's"
  NewReaderByText :: "string \<Rightarrow> 'r"
  NewReaderByFile :: "string \<Rightarrow> go_int \<Rightarrow> error + 'r"
  ipset_New :: "string \<Rightarrow> string \<Rightarrow> go_int \<Rightarrow> error + 'i"
  NewDNSCache :: "go_int \<Rightarrow> Duration \<Rightarrow> Duration \<Rightarrow> 'c"

text \<open>\<^verbatim>\<open>inbound.Group\<close> and \<^verbatim>\<open>inbound.Handler\<close>, with the fields that
  \<^verbatim>\<open>conf.go\<close> sets (the suffix \<open>_h\<close> tells a field from the field of the same
  name in the configuration). The handler's \<^verbatim>\<open>Mux\<close> is a fresh lock and carries
  no data. \<open>Groups_h\<close> is the map from group name to group, with one entry per key.\<close>

record ('m, 'i) inbound_Group =
  Callers :: "Caller list"
  Concurrent_h :: bool
  Matcher :: 'm
  IPSet_h :: "'i option"

record ('m, 's, 'r, 'i, 'c) Handler =
  Listen_h :: string
  GFWMatcher :: 'm
  CNIP_h :: 's
  HostsReaders :: "'r list"
  Cache_h :: 'c
  Groups_h :: "(string \<times> ('m, 'i) inbound_Group) list"

subsection \<open>GenIPSet\<close>

definition GenIPSet :: "('m, 's, 'r, 'i, 'c) env \<Rightarrow> Group \<Rightarrow> error + 'i option" where
  "GenIPSet e conf =
     (if IPSet conf \<noteq> '''' then
        (case ipset_New e (IPSet conf) ''hash:ip'' (IPSetTTL conf) of
           Inl err \<Rightarrow> Inl err
         | Inr ipSet \<Rightarrow> Inr (Some ipSet))
      else Inr None)"

subsection \<open>GenCallers\<close>

text \<open>The first loop, over \<^verbatim>\<open>conf.DNS\<close>.\<close>

fun range_DNS :: "Dialer option \<Rightarrow> string list \<Rightarrow> Caller list \<Rightarrow> Caller list" where
  "range_DNS dialer [] callers = callers"
| "range_DNS dialer (addr # rest) callers =
     (let network = ''udp'';
          (addr, network) =
            (if HasSuffix addr ''/tcp'' then (take (length addr - 4) addr, ''tcp'')
             else (addr, network))
      in if addr \<noteq> '''' then
           (let addr = (if \<not> Contains addr '':'' then addr @ '':53'' else addr)
            in range_DNS dialer rest (callers @ [NewDNSCaller addr network dialer]))
         else range_DNS dialer rest callers)"

text \<open>The second loop, over \<^verbatim>\<open>conf.DoT\<close>.\<close>

fun range_DoT :: "Dialer option \<Rightarrow> string list \<Rightarrow> Caller list \<Rightarrow> Caller list" where
  "range_DoT dialer [] callers = callers"
| "range_DoT dialer (addr # rest) callers =
     (let arr = Split addr CHR ''@'' in
      if length arr \<noteq> 2 then range_DoT dialer rest callers
      else
        (let addr = arr ! 0; serverName = arr ! 1 in
         if addr \<noteq> '''' \<and> serverName \<noteq> '''' then
           (let addr = (if \<not> Contains addr '':'' then addr @ '':853'' else addr)
            in range_DoT dialer rest (callers @ [NewDoTCaller addr serverName dialer]))
         else range_DoT dialer rest callers))"

text \<open>The regular expressions the source needs: a sequence of literals and of
  \<^verbatim>\<open>.+\<close> (one or more bytes other than a line feed), anchored at both ends by
  \<^verbatim>\<open>^\<close> and \<^verbatim>\<open>$\<close>. \<open>MatchString\<close> tries every length for
  \<^verbatim>\<open>.+\<close>.\<close>

datatype regexp_item = Lit string | DotPlus

fun MatchString :: "regexp_item list \<Rightarrow> string \<Rightarrow> bool" where
  "MatchString [] s = (s = [])"
| "MatchString (Lit l # items) s = (HasPrefix s l \<and> MatchString items (drop (length l) s))"
| "MatchString (DotPlus # items) [] = False"
| "MatchString (DotPlus # items) (c # s) =
     (c \<noteq> CHR 0x0A \<and> (MatchString items s \<or> MatchString (DotPlus # items) s))"

text \<open>\<^verbatim>\<open>regexp.MustCompile(`^https://.+/dns-query$`)\<close>.\<close>

definition dohReg :: "regexp_item list" where
  "dohReg = [Lit ''https://'', DotPlus, Lit ''/dns-query'']"

text \<open>The third loop, over \<^verbatim>\<open>conf.DoH\<close>.\<close>

fun range_DoH :: "Dialer option \<Rightarrow> string list \<Rightarrow> Caller list \<Rightarrow> Caller list" where
  "range_DoH dialer [] callers = callers"
| "range_DoH dialer (addr # rest) callers =
     (if MatchString dohReg addr then range_DoH dialer rest (callers @ [NewDoHCaller addr dialer])
      else range_DoH dialer rest callers)"

text \<open>The dialer of a group: \<^verbatim>\<open>proxy.SOCKS5\<close> when \<^verbatim>\<open>conf.Socks5\<close> is
  set (its error is dropped by the source), nil otherwise.\<close>

definition GenDialer :: "Group \<Rightarrow> Dialer option" where
  "GenDialer conf = (if Socks5 conf \<noteq> '''' then Some (SOCKS5 ''tcp'' (Socks5 conf)) else None)"

definition GenCallers :: "Group \<Rightarrow> Caller list" where
  "GenCallers conf =
     (let dialer = GenDialer conf;
          callers = range_DNS dialer (DNS conf) [];
          callers = range_DoT dialer (DoT conf) callers;
          callers = range_DoH dialer (DoH conf) callers
      in callers)"

subsection \<open>GenCache\<close>

text \<open>\<open>GenCache\<close> writes the defaults into \<^verbatim>\<open>conf.Cache\<close> (through the
  pointer), so the configuration is returned with the cache. Reading
  \<^verbatim>\<open>conf.Cache.Size\<close> with a nil \<^verbatim>\<open>conf.Cache\<close> panics.\<close>

definition GenCache ::
  "('m, 's, 'r, 'i, 'c) env \<Rightarrow> Conf \<Rightarrow> (Conf \<times> 'c) outcome" where
  "GenCache e conf =
     (case Cache conf of
        None \<Rightarrow> Panicked
      | Some cache \<Rightarrow>
          (let cache = (if Size cache = 0 then cache\<lparr>Size := 4096\<rparr> else cache);
               cache = (if MinTTL cache = 0 then cache\<lparr>MinTTL := 60\<rparr> else cache);
               cache = (if MaxTTL cache = 0 then cache\<lparr>MaxTTL := 86400\<rparr> else cache);
               minTTL = MinTTL cache * Second;
               maxTTL = MaxTTL cache * Second
           in Returned (conf\<lparr>Cache := Some cache\<rparr>, NewDNSCache e (Size cache) minTTL maxTTL)))"

subsection \<open>GenHostsReader\<close>

text \<open>The loop over \<^verbatim>\<open>conf.HostsFiles\<close>, with the readers and the log so far.\<close>

fun range_HostsFiles ::
  "('m, 's, 'r, 'i, 'c) env \<Rightarrow> string list \<Rightarrow> 'r list \<Rightarrow> log_entry list
   \<Rightarrow> 'r list \<times> log_entry list" where
  "range_HostsFiles e [] readers log = (readers, log)"
| "range_HostsFiles e (filename # rest) readers log =
     (case NewReaderByFile e filename 0 of
        Inl err \<Rightarrow>
          range_HostsFiles e rest readers
            (log @ [Entry WarnLevel [(''file'', filename)] (''read hosts error: '' @ Error err)])
      | Inr reader \<Rightarrow> range_HostsFiles e rest (readers @ [reader]) log)"

definition GenHostsReader ::
  "('m, 's, 'r, 'i, 'c) env \<Rightarrow> Conf \<Rightarrow> 'r list \<times> log_entry list" where
  "GenHostsReader e conf =
     (let lines = map (\<lambda>(hostname, ip). ip @ '' '' @ hostname) (Hosts conf);
          readers =
            (if length lines > 0 then [NewReaderByText e (Join lines [CHR 0x0A])] else [])
      in range_HostsFiles e (HostsFiles conf) readers [])"

subsection \<open>NewHandler\<close>

text \<open>The loop over \<^verbatim>\<open>config.Groups\<close>, with the handler's groups and the log so
  far; it returns early with the error of \<open>GenIPSet\<close>.\<close>

fun range_Groups ::
  "('m, 's, 'r, 'i, 'c) env \<Rightarrow> (string \<times> Group) list
   \<Rightarrow> (string \<times> ('m, 'i) inbound_Group) list \<Rightarrow> log_entry list
   \<Rightarrow> (error + (string \<times> ('m, 'i) inbound_Group) list) \<times> log_entry list" where
  "range_Groups e [] groups log = (Inr groups, log)"
| "range_Groups e ((name, grp) # rest) groups log =
     (let log =
            (if Concurrent grp
             then log @ [Entry WarnLevel [] (''enable dns concurrent in group '' @ name)]
             else log);
          matcher = NewABPByText e (Join (Rules grp) [CHR 0x0A])
      in case GenIPSet e grp of
           Inl err \<Rightarrow> (Inl err, log @ [Entry ErrorLevel [] (''create ipset error: '' @ Error err)])
         | Inr ipSet \<Rightarrow>
             range_Groups e rest
               (AList.update name
                  \<lparr>Callers = GenCallers grp, Concurrent_h = Concurrent grp,
                   Matcher = matcher, IPSet_h = ipSet\<rparr> groups)
               log)"

text \<open>The validity check that ends \<open>NewHandler\<close>: the value of the condition of its
  \<^verbatim>\<open>if\<close>. \<^verbatim>\<open>handler.Groups[name]\<close> is a nil pointer for a name that is
  not a key, and reading \<^verbatim>\<open>.Callers\<close> through it panics; \<^verbatim>\<open>||\<close>
  evaluates from the left and stops at the first true operand.\<close>

definition emptyGroupError :: error where
  "emptyGroupError = Errorf ''dns of clean/dirty group cannot be empty''"

definition checkGroups ::
  "(string \<times> ('m, 'i) inbound_Group) list \<Rightarrow> bool outcome" where
  "checkGroups groups =
     (if length groups \<le> 0 then Returned True
      else case map_of groups ''clean'' of
        None \<Rightarrow> Panicked
      | Some clean \<Rightarrow>
          if length (Callers clean) \<le> 0 then Returned True
          else case map_of groups ''dirty'' of
            None \<Rightarrow> Panicked
          | Some dirty \<Rightarrow> Returned (length (Callers dirty) \<le> 0))"

text \<open>\<open>NewHandler\<close> returns the pair \<^verbatim>\<open>(handler, err)\<close>, and writes the log.\<close>

definition NewHandler ::
  "('m, 's, 'r, 'i, 'c) env \<Rightarrow> string
   \<Rightarrow> (('m, 's, 'r, 'i, 'c) Handler option \<times> error option) outcome \<times> log_entry list" where
  "NewHandler e filename =
     (case DecodeFile e filename of
        Inl err \<Rightarrow>
          (Returned (None, Some err),
           [Entry ErrorLevel [(''file'', filename)] (''read config error: '' @ Error err)])
      | Inr config \<Rightarrow>
          let config = SetDefault config in
          case NewABPByFile e (GFWList config) True of
            Inl err \<Rightarrow>
              (Returned (None, Some err),
               [Entry ErrorLevel [(''file'', GFWList config)]
                  (''read gfwlist error: '' @ Error err)])
          | Inr gfwMatcher \<Rightarrow>
              case NewRamSetByFile e (CNIP config) of
                Inl err \<Rightarrow>
                  (Returned (None, Some err),
                   [Entry ErrorLevel [(''file'', CNIP config)]
                      (''read cnip error: '' @ Error err)])
              | Inr cnip \<Rightarrow>
                  let (readers, log) = GenHostsReader e config in
                  case GenCache e config of
                    Panicked \<Rightarrow> (Panicked, log)
                  | Returned (config, cache) \<Rightarrow>
                      case range_Groups e (Groups config) [] log of
                        (Inl err, log) \<Rightarrow> (Returned (None, Some err), log)
                      | (Inr groups, log) \<Rightarrow>
                          case checkGroups groups of
                            Panicked \<Rightarrow> (Panicked, log)
                          | Returned True \<Rightarrow>
                              (Returned (None, Some emptyGroupError),
                               log @ [Entry ErrorLevel [] (Error emptyGroupError)])
                          | Returned False \<Rightarrow>
                              (Returned
                                 (Some \<lparr>Listen_h = Listen config, GFWMatcher = gfwMatcher,
                                        CNIP_h = cnip, HostsReaders = readers,
                                        Cache_h = cache, Groups_h = groups\<rparr>,
                                  None),
                               log))"

subsection \<open>The sample configuration\<close>

text \<open>The configuration of \<^verbatim>\<open>ts-dns-full.toml\<close>, as \<^verbatim>\<open>toml.DecodeFile\<close>
  fills the structures above (keys without a field, such as \<^verbatim>\<open>fastest_v4\<close>, are
  dropped).\<close>

definition clean_full :: Group where
  "clean_full =
     \<lparr>Socks5 = [], IPSet = [], IPSetTTL = 0,
      DNS = [''119.29.29.29/tcp'', ''223.5.5.5:53'', ''114.114.114.114''],
      DoT = [], DoH = [], Concurrent = True,
      Rules = [''qq.com'', ''.baidu.com'', ''*.taobao.com'']\<rparr>"

definition dirty_full :: Group where
  "dirty_full =
     \<lparr>Socks5 = ''127.0.0.1:1080'', IPSet = ''blocked'', IPSetTTL = 86400,
      DNS = [''8.8.8.8'', ''1.1.1.1''],
      DoT = [''1.0.0.1:853@cloudflare-dns.com''],
      DoH = [''https://cloudflare-dns.com/dns-query''], Concurrent = False,
      Rules = []\<rparr>"

definition work_full :: Group where
  "work_full =
     \<lparr>Socks5 = [], IPSet = [], IPSetTTL = 0,
      DNS = [''10.1.1.1''], DoT = [], DoH = [], Concurrent = False,
      Rules = [''company.com'']\<rparr>"

definition conf_full :: Conf where
  "conf_full =
     \<lparr>Listen = '':53'', GFWList = ''gfwlist.txt'', CNIP = ''cnip.txt'',
      HostsFiles = [''/etc/hosts''],
      Hosts = [(''example.com'', ''8.8.8.8''), (''cloudflare-dns.com'', ''1.0.0.1'')],
      Cache = Some \<lparr>Size = 4096, MinTTL = 60, MaxTTL = 86400\<rparr>,
      Groups = [(''clean'', clean_full), (''dirty'', dirty_full), (''work'', work_full)]\<rparr>"

text \<open>An environment for running the code on a configuration: the configuration file
  decodes to \<open>conf\<close>, \<open>files\<close> gives the text of each other file or the error of
  reading it, and every object of another package is represented by what it was built
  from (a matcher by its rule text, a reader by its text, the CN-IP set by the text of
  its file, an IPSet by its name, type and timeout, the cache by its size and TTL
  bounds).\<close>

definition run_env ::
  "Conf \<Rightarrow> (string \<Rightarrow> error + string)
   \<Rightarrow> (string, string, string, string \<times> string \<times> go_int, go_int \<times> Duration \<times> Duration) env" where
  "run_env conf files =
     \<lparr>DecodeFile = (\<lambda>filename. Inr conf),
      NewABPByFile = (\<lambda>filename b64. files filename),
      NewABPByText = (\<lambda>text. text),
      NewRamSetByFile = files,
      NewReaderByText = (\<lambda>text. text),
      NewReaderByFile = (\<lambda>filename reloadTick. files filename),
      ipset_New = (\<lambda>name typ ttl. Inr (name, typ, ttl)),
      NewDNSCache = (\<lambda>size minTTL maxTTL. (size, minTTL, maxTTL))\<rparr>"

text \<open>Files for the sample configuration: the deny list holds the one rule
  \<^verbatim>\<open>example.com\<close>, the CN-IP list one network, and \<^verbatim>\<open>/etc/hosts\<close> cannot
  be read.\<close>

definition files_full :: "string \<Rightarrow> error + string" where
  "files_full filename =
     (if filename = ''gfwlist.txt'' then Inr ''example.com''
      else if filename = ''cnip.txt'' then Inr ''1.0.1.0/24''
      else Inl (Errorf (''open '' @ filename @ '': no such file or directory'')))"

text \<open>The handler that \<open>NewHandler\<close> builds from the sample configuration and these
  files (lemma \<open>NewHandler_full\<close> below).\<close>

definition handler_full ::
  "(string, string, string, string \<times> string \<times> go_int, go_int \<times> Duration \<times> Duration) Handler" where
  "handler_full =
     \<lparr>Listen_h = '':53'', GFWMatcher = ''example.com'', CNIP_h = ''1.0.1.0/24'',
      HostsReaders = [''8.8.8.8 example.com'' @ [CHR 0x0A] @ ''1.0.0.1 cloudflare-dns.com''],
      Cache_h = (4096, 60000000000, 86400000000000),
      Groups_h =
        [(''clean'',
          \<lparr>Callers =
             [NewDNSCaller ''119.29.29.29:53'' ''tcp'' None,
              NewDNSCaller ''223.5.5.5:53'' ''udp'' None,
              NewDNSCaller ''114.114.114.114:53'' ''udp'' None],
           Concurrent_h = True,
           Matcher = ''qq.com'' @ [CHR 0x0A] @ ''.baidu.com'' @ [CHR 0x0A] @ ''*.taobao.com'',
           IPSet_h = None\<rparr>),
         (''dirty'',
          \<lparr>Callers =
             [NewDNSCaller ''8.8.8.8:53'' ''udp'' (Some (SOCKS5 ''tcp'' ''127.0.0.1:1080'')),
              NewDNSCaller ''1.1.1.1:53'' ''udp'' (Some (SOCKS5 ''tcp'' ''127.0.0.1:1080'')),
              NewDoTCaller ''1.0.0.1:853'' ''cloudflare-dns.com''
                (Some (SOCKS5 ''tcp'' ''127.0.0.1:1080'')),
              NewDoHCaller ''https://cloudflare-dns.com/dns-query''
                (Some (SOCKS5 ''tcp'' ''127.0.0.1:1080''))],
           Concurrent_h = False, Matcher = [],
           IPSet_h = Some (''blocked'', ''hash:ip'', 86400)\<rparr>),
         (''work'',
          \<lparr>Callers = [NewDNSCaller ''10.1.1.1:53'' ''udp'' None],
           Concurrent_h = False, Matcher = ''company.com'', IPSet_h = None\<rparr>)]\<rparr>"

text \<open>The sample configuration without its section \<^verbatim>\<open>[groups.dirty]\<close>.\<close>

definition conf_no_dirty :: Conf where
  "conf_no_dirty = conf_full\<lparr>Groups := [(''clean'', clean_full), (''work'', work_full)]\<rparr>"

text \<open>The sample configuration with one more group, which has no usable upstream
  address: its only entry, in \<^verbatim>\<open>dot\<close>, lacks the server name.\<close>

definition spare_group :: Group where
  "spare_group =
     \<lparr>Socks5 = [], IPSet = [], IPSetTTL = 0,
      DNS = [], DoT = [''9.9.9.9:853''], DoH = [], Concurrent = False,
      Rules = [''spare.example'']\<rparr>"

definition conf_spare :: Conf where
  "conf_spare = conf_full\<lparr>Groups := Groups conf_full @ [(''spare'', spare_group)]\<rparr>"

text \<open>Files among which the deny list is missing.\<close>

definition files_no_gfwlist :: "string \<Rightarrow> error + string" where
  "files_no_gfwlist filename =
     (if filename = ''cnip.txt'' then Inr ''1.0.1.0/24''
      else Inl (Errorf (''open '' @ filename @ '': no such file or directory'')))"

subsection \<open>The response cache\<close>

text \<open>Modelled from the spec: the package \<^verbatim>\<open>cache\<close> (the constructor
  \<^verbatim>\<open>cache.NewDNSCache\<close> that \<open>GenCache\<close> calls, and the methods \<^verbatim>\<open>Get\<close>
  and \<^verbatim>\<open>Set\<close> of the cache it returns) is not among the sources. The model follows
  section 4.2 of the specification: an entry is a response with its expiry instant;
  \<^verbatim>\<open>Get\<close> misses on an absent and on an expired entry; \<^verbatim>\<open>Set\<close> takes the
  smallest TTL of the answer's records (a default for an empty answer), clamps it into
  \<open>[minTTL, maxTTL]\<close>, overwrites the entry of the key and evicts the oldest entries
  so that the size is never exceeded; a non-positive size disables the cache. Instants
  and TTLs count nanoseconds, as \<^verbatim>\<open>time.Duration\<close> does; the entries are listed
  oldest first.\<close>

text \<open>Modelled from the spec: a response, reduced to the TTLs of the records of its
  answer and the rest of the message.\<close>

record response =
  answer_ttls :: "int list"
  payload :: string

text \<open>Modelled from the spec: the cache, with its configured size, its TTL bounds and its
  entries (key, response, expiry instant).\<close>

record 'k DNSCache =
  cache_size :: int
  cache_minTTL :: int
  cache_maxTTL :: int
  cache_entries :: "('k \<times> response \<times> int) list"

text \<open>Modelled from the spec: \<^verbatim>\<open>cache.NewDNSCache(size, minTTL, maxTTL)\<close>, an empty
  cache with these bounds.\<close>

definition NewDNSCache_spec :: "go_int \<Rightarrow> Duration \<Rightarrow> Duration \<Rightarrow> 'k DNSCache" where
  "NewDNSCache_spec sz minTTL maxTTL =
     \<lparr>cache_size = sint sz, cache_minTTL = sint minTTL, cache_maxTTL = sint maxTTL,
      cache_entries = []\<rparr>"

text \<open>Modelled from the spec: \<^verbatim>\<open>Get(key)\<close> at the instant \<open>now\<close>.\<close>

definition DNSCache_Get :: "'k DNSCache \<Rightarrow> int \<Rightarrow> 'k \<Rightarrow> response option" where
  "DNSCache_Get c now key =
     (if cache_size c \<le> 0 then None
      else case map_of (cache_entries c) key of
        None \<Rightarrow> None
      | Some (r, expiry) \<Rightarrow> if expiry \<le> now then None else Some r)"

text \<open>Modelled from the spec: the origin TTL of a response, \<open>dflt\<close> for an empty
  answer.\<close>

definition origin_ttl :: "int \<Rightarrow> response \<Rightarrow> int" where
  "origin_ttl dflt r = (case answer_ttls r of [] \<Rightarrow> dflt | t # ts \<Rightarrow> fold min ts t)"

text \<open>Modelled from the spec: \<^verbatim>\<open>Set(key, response)\<close> at the instant \<open>now\<close>.\<close>

definition DNSCache_Set ::
  "int \<Rightarrow> 'k DNSCache \<Rightarrow> int \<Rightarrow> 'k \<Rightarrow> response \<Rightarrow> 'k DNSCache" where
  "DNSCache_Set dflt c now key r =
     (if cache_size c \<le> 0 then c
      else
        let ttl = max (cache_minTTL c) (min (cache_maxTTL c) (origin_ttl dflt r));
            others = filter (\<lambda>(k, _). k \<noteq> key) (cache_entries c);
            kept = drop (length others + 1 - nat (cache_size c)) others
        in c\<lparr>cache_entries := kept @ [(key, r, now + ttl)]\<rparr>)"

text \<open>The environment \<open>run_env\<close>, with this cache in place of the triple of its
  parameters.\<close>

definition cache_env ::
  "Conf \<Rightarrow> (string \<Rightarrow> error + string)
   \<Rightarrow> (string, string, string, string \<times> string \<times> go_int, string DNSCache) env" where
  "cache_env conf files =
     \<lparr>DecodeFile = (\<lambda>filename. Inr conf),
      NewABPByFile = (\<lambda>filename b64. files filename),
      NewABPByText = (\<lambda>text. text),
      NewRamSetByFile = files,
      NewReaderByText = (\<lambda>text. text),
      NewReaderByFile = (\<lambda>filename reloadTick. files filename),
      ipset_New = (\<lambda>name typ ttl. Inr (name, typ, ttl)),
      NewDNSCache = NewDNSCache_spec\<rparr>"

text \<open>The sample configuration with the cache size set to 0, and a response with one
  record of TTL 300 seconds.\<close>

definition conf_size0 :: Conf where
  "conf_size0 = conf_full\<lparr>Cache := Some \<lparr>Size = 0, MinTTL = 60, MaxTTL = 86400\<rparr>\<rparr>"

definition response300 :: response where
  "response300 = \<lparr>answer_ttls = [300000000000], payload = ''example.com. 300 IN A 8.8.8.8''\<rparr>"

section \<open>Properties\<close>

subsection \<open>Go's string functions, characterised\<close>

lemma HasSuffix_iff: "HasSuffix s suf \<longleftrightarrow> suffix suf s"
  by (auto simp: HasSuffix_def suffix_def) (metis append_take_drop_id)

lemma HasPrefix_iff: "HasPrefix s pre \<longleftrightarrow> prefix pre s"
  by (auto simp: HasPrefix_def prefix_def) (metis append_take_drop_id)

lemma Contains_single: "Contains s [c] \<longleftrightarrow> c \<in> set s"
  by (induction s) (auto simp: HasPrefix_def)

lemma Split_not_Nil: "Split s sep \<noteq> []"
  by (induction s) (auto split: list.splits)

lemma Split_no_sep: "sep \<notin> set s \<Longrightarrow> Split s sep = [s]"
  by (induction s) auto

lemma Split_append: "sep \<notin> set u \<Longrightarrow> Split (u @ sep # v) sep = u # Split v sep"
  by (induction u) (auto split: list.splits)

lemma Split_one_D: "Split s sep = [v] \<Longrightarrow> s = v \<and> sep \<notin> set v"
proof (induction s arbitrary: v)
  case Nil
  then show ?case by simp
next
  case (Cons c s)
  show ?case
  proof (cases "c = sep")
    case True
    with Cons.prems show ?thesis by (simp add: Split_not_Nil)
  next
    case False
    obtain p ps where ps: "Split s sep = p # ps"
      using Split_not_Nil [of s sep] by (cases "Split s sep") auto
    with Cons.prems False have "v = c # p" "ps = []" by simp_all
    with Cons.IH [of p] ps False show ?thesis by simp
  qed
qed

lemma Split_one_iff: "Split s sep = [v] \<longleftrightarrow> s = v \<and> sep \<notin> set v"
  using Split_one_D Split_no_sep by blast

lemma Split_two_iff:
  "Split s sep = [u, v] \<longleftrightarrow> s = u @ sep # v \<and> sep \<notin> set u \<and> sep \<notin> set v"
proof
  show "Split s sep = [u, v] \<Longrightarrow> s = u @ sep # v \<and> sep \<notin> set u \<and> sep \<notin> set v"
  proof (induction s arbitrary: u)
    case Nil
    then show ?case by simp
  next
    case (Cons c s)
    show ?case
    proof (cases "c = sep")
      case True
      with Cons.prems show ?thesis by (simp add: Split_one_iff)
    next
      case False
      with Cons.prems obtain p where p: "u = c # p" "Split s sep = [p, v]"
        by (auto split: list.splits)
      from Cons.IH [OF p(2)] p(1) False show ?thesis by simp
    qed
  qed
next
  assume "s = u @ sep # v \<and> sep \<notin> set u \<and> sep \<notin> set v"
  then show "Split s sep = [u, v]"
    by (simp add: Split_append Split_no_sep)
qed

lemma MatchString_Lit_end: "MatchString [Lit b] t \<longleftrightarrow> t = b"
proof -
  have "MatchString [Lit b] t \<longleftrightarrow> prefix b t \<and> length t \<le> length b"
    by (simp add: HasPrefix_iff)
  also have "\<dots> \<longleftrightarrow> t = b"
    by (auto simp: prefix_def)
  finally show ?thesis .
qed

lemma MatchString_DotPlus_Lit:
  "MatchString [DotPlus, Lit b] t \<longleftrightarrow> (\<exists>x. x \<noteq> [] \<and> CHR 0x0A \<notin> set x \<and> t = x @ b)"
proof (induction t)
  case Nil
  then show ?case by simp
next
  case (Cons c t)
  show ?case
  proof
    assume "MatchString [DotPlus, Lit b] (c # t)"
    then have c: "c \<noteq> CHR 0x0A" and d: "t = b \<or> MatchString [DotPlus, Lit b] t"
      by (simp_all add: MatchString_Lit_end del: MatchString.simps(2))
    from d show "\<exists>x. x \<noteq> [] \<and> CHR 0x0A \<notin> set x \<and> c # t = x @ b"
    proof
      assume "t = b"
      with c show ?thesis by (intro exI [of _ "[c]"]) simp
    next
      assume "MatchString [DotPlus, Lit b] t"
      with Cons.IH obtain x where "x \<noteq> []" "CHR 0x0A \<notin> set x" "t = x @ b" by blast
      with c show ?thesis by (intro exI [of _ "c # x"]) simp
    qed
  next
    assume "\<exists>x. x \<noteq> [] \<and> CHR 0x0A \<notin> set x \<and> c # t = x @ b"
    then obtain x where x: "x \<noteq> []" "CHR 0x0A \<notin> set x" "c # t = x @ b" by blast
    then obtain x' where x': "x = c # x'" "t = x' @ b" by (cases x) auto
    show "MatchString [DotPlus, Lit b] (c # t)"
    proof (cases "x' = []")
      case True
      with x x' show ?thesis by (simp add: MatchString_Lit_end del: MatchString.simps(2))
    next
      case False
      with x x' Cons.IH have "MatchString [DotPlus, Lit b] t" by auto
      with x x' show ?thesis by (auto simp del: MatchString.simps(2))
    qed
  qed
qed

lemma dohReg_iff:
  "MatchString dohReg s \<longleftrightarrow>
     (\<exists>x. x \<noteq> [] \<and> CHR 0x0A \<notin> set x \<and> s = ''https://'' @ x @ ''/dns-query'')"
proof -
  define a where "a = ''https://''"
  define b where "b = ''/dns-query''"
  have "MatchString [Lit a, DotPlus, Lit b] s \<longleftrightarrow>
      prefix a s \<and> MatchString [DotPlus, Lit b] (drop (length a) s)"
    by (simp add: HasPrefix_iff del: MatchString.simps(4))
  also have "\<dots> \<longleftrightarrow> (\<exists>x. x \<noteq> [] \<and> CHR 0x0A \<notin> set x \<and> s = a @ x @ b)"
    unfolding MatchString_DotPlus_Lit by (auto simp: prefix_def)
  finally show ?thesis
    unfolding dohReg_def a_def b_def .
qed


subsection \<open>The loops of GenCallers, address by address\<close>

lemma range_DNS_Cons:
  "range_DNS d (a # xs) acc = range_DNS d xs (acc @ range_DNS d [a] [])"
  by (simp add: Let_def split: prod.splits)

lemma range_DNS_concat:
  "range_DNS d xs acc = acc @ concat (map (\<lambda>a. range_DNS d [a] []) xs)"
proof (induction xs arbitrary: acc)
  case Nil
  then show ?case by simp
next
  case (Cons a xs)
  have "range_DNS d (a # xs) acc = range_DNS d xs (acc @ range_DNS d [a] [])"
    by (rule range_DNS_Cons)
  also have "\<dots> = (acc @ range_DNS d [a] []) @ concat (map (\<lambda>a. range_DNS d [a] []) xs)"
    by (rule Cons.IH)
  finally show ?case by simp
qed

lemma range_DoT_Cons:
  "range_DoT d (a # xs) acc = range_DoT d xs (acc @ range_DoT d [a] [])"
  by (simp add: Let_def)

lemma range_DoT_concat:
  "range_DoT d xs acc = acc @ concat (map (\<lambda>a. range_DoT d [a] []) xs)"
proof (induction xs arbitrary: acc)
  case Nil
  then show ?case by simp
next
  case (Cons a xs)
  have "range_DoT d (a # xs) acc = range_DoT d xs (acc @ range_DoT d [a] [])"
    by (rule range_DoT_Cons)
  also have "\<dots> = (acc @ range_DoT d [a] []) @ concat (map (\<lambda>a. range_DoT d [a] []) xs)"
    by (rule Cons.IH)
  finally show ?case by simp
qed

lemma range_DoH_filter:
  "range_DoH d xs acc = acc @ map (\<lambda>a. NewDoHCaller a d) (filter (MatchString dohReg) xs)"
  by (induction xs arbitrary: acc) simp_all

lemma GenCallers_concat:
  "GenCallers conf =
     concat (map (\<lambda>a. range_DNS (GenDialer conf) [a] []) (DNS conf))
     @ concat (map (\<lambda>a. range_DoT (GenDialer conf) [a] []) (DoT conf))
     @ map (\<lambda>a. NewDoHCaller a (GenDialer conf)) (filter (MatchString dohReg) (DoH conf))"
proof -
  let ?d = "GenDialer conf"
  have dns: "range_DNS ?d (DNS conf) [] = concat (map (\<lambda>a. range_DNS ?d [a] []) (DNS conf))"
    using range_DNS_concat [of ?d "DNS conf" "[]"] by (simp only: append_Nil)
  have "GenCallers conf =
      range_DoH ?d (DoH conf) (range_DoT ?d (DoT conf) (range_DNS ?d (DNS conf) []))"
    by (simp only: GenCallers_def Let_def)
  also have "\<dots> = range_DoT ?d (DoT conf) (range_DNS ?d (DNS conf) [])
      @ map (\<lambda>a. NewDoHCaller a ?d) (filter (MatchString dohReg) (DoH conf))"
    by (rule range_DoH_filter)
  also have "range_DoT ?d (DoT conf) (range_DNS ?d (DNS conf) []) =
      range_DNS ?d (DNS conf) [] @ concat (map (\<lambda>a. range_DoT ?d [a] []) (DoT conf))"
    by (rule range_DoT_concat)
  finally show ?thesis
    by (simp only: dns append_assoc)
qed

lemma range_DNS_one_kind: "c \<in> set (range_DNS d [a] []) \<Longrightarrow> is_DNSCaller c"
  by (auto simp: Let_def split: if_splits prod.splits)

lemma range_DoT_one_kind: "c \<in> set (range_DoT d [a] []) \<Longrightarrow> is_DoTCaller c"
  by (auto simp: Let_def split: if_splits)

lemma range_DNS_one_others:
  "c \<in> set (range_DNS d [a] []) \<Longrightarrow> \<not> is_DoTCaller c \<and> \<not> is_DoHCaller c"
  by (drule range_DNS_one_kind) (cases c; simp)

lemma range_DoT_one_others:
  "c \<in> set (range_DoT d [a] []) \<Longrightarrow> \<not> is_DNSCaller c \<and> \<not> is_DoHCaller c"
  by (drule range_DoT_one_kind) (cases c; simp)

lemma filter_concat_all:
  "(\<And>x y. y \<in> set (f x) \<Longrightarrow> P y) \<Longrightarrow> filter P (concat (map f xs)) = concat (map f xs)"
  by (induction xs) auto

lemma filter_concat_none:
  "(\<And>x y. y \<in> set (f x) \<Longrightarrow> \<not> P y) \<Longrightarrow> filter P (concat (map f xs)) = []"
  by (induction xs) auto

lemma filter_DNS:
  "filter is_DNSCaller (GenCallers conf) =
     concat (map (\<lambda>a. range_DNS (GenDialer conf) [a] []) (DNS conf))"
proof -
  have 1: "filter is_DNSCaller (concat (map (\<lambda>a. range_DNS (GenDialer conf) [a] []) (DNS conf)))
      = concat (map (\<lambda>a. range_DNS (GenDialer conf) [a] []) (DNS conf))"
    by (rule filter_concat_all) (rule range_DNS_one_kind)
  have 2: "filter is_DNSCaller (concat (map (\<lambda>a. range_DoT (GenDialer conf) [a] []) (DoT conf))) = []"
    by (rule filter_concat_none) (blast dest: range_DoT_one_others)
  have 3: "filter is_DNSCaller (map (\<lambda>a. NewDoHCaller a (GenDialer conf)) xs) = []" for xs
    by (induction xs) auto
  show ?thesis
    unfolding GenCallers_concat filter_append 1 2 3 by (simp only: append_Nil append_Nil2)
qed

lemma filter_DoT:
  "filter is_DoTCaller (GenCallers conf) =
     concat (map (\<lambda>a. range_DoT (GenDialer conf) [a] []) (DoT conf))"
proof -
  have 1: "filter is_DoTCaller (concat (map (\<lambda>a. range_DNS (GenDialer conf) [a] []) (DNS conf))) = []"
    by (rule filter_concat_none) (blast dest: range_DNS_one_others)
  have 2: "filter is_DoTCaller (concat (map (\<lambda>a. range_DoT (GenDialer conf) [a] []) (DoT conf)))
      = concat (map (\<lambda>a. range_DoT (GenDialer conf) [a] []) (DoT conf))"
    by (rule filter_concat_all) (rule range_DoT_one_kind)
  have 3: "filter is_DoTCaller (map (\<lambda>a. NewDoHCaller a (GenDialer conf)) xs) = []" for xs
    by (induction xs) auto
  show ?thesis
    unfolding GenCallers_concat filter_append 1 2 3 by (simp only: append_Nil append_Nil2)
qed

lemma filter_DoH:
  "filter is_DoHCaller (GenCallers conf) =
     map (\<lambda>a. NewDoHCaller a (GenDialer conf)) (filter (MatchString dohReg) (DoH conf))"
proof -
  have 1: "filter is_DoHCaller (concat (map (\<lambda>a. range_DNS (GenDialer conf) [a] []) (DNS conf))) = []"
    by (rule filter_concat_none) (blast dest: range_DNS_one_others)
  have 2: "filter is_DoHCaller (concat (map (\<lambda>a. range_DoT (GenDialer conf) [a] []) (DoT conf))) = []"
    by (rule filter_concat_none) (blast dest: range_DoT_one_others)
  have 3: "filter is_DoHCaller (map (\<lambda>a. NewDoHCaller a (GenDialer conf)) xs)
     = map (\<lambda>a. NewDoHCaller a (GenDialer conf)) xs" for xs
    by (induction xs) auto
  show ?thesis
    unfolding GenCallers_concat filter_append 1 2 3 by (simp only: append_Nil append_Nil2)
qed

subsection \<open>The callers of one address\<close>

lemma range_DNS_tcp:
  "host \<noteq> [] \<Longrightarrow> range_DNS d [host @ ''/tcp''] [] =
     [NewDNSCaller (if CHR '':'' \<in> set host then host else host @ '':53'') ''tcp'' d]"
proof -
  assume h: "host \<noteq> []"
  have s: "HasSuffix (host @ ''/tcp'') ''/tcp''"
    unfolding HasSuffix_iff by (rule suffixI) (rule refl)
  have c: "Contains host '':'' \<longleftrightarrow> CHR '':'' \<in> set host"
    by (rule Contains_single)
  show ?thesis
    using h by (simp add: s c Let_def del: Contains.simps)
qed

lemma range_DNS_udp:
  "addr \<noteq> [] \<Longrightarrow> \<not> suffix ''/tcp'' addr \<Longrightarrow> range_DNS d [addr] [] =
     [NewDNSCaller (if CHR '':'' \<in> set addr then addr else addr @ '':53'') ''udp'' d]"
proof -
  assume h: "addr \<noteq> []" and n: "\<not> suffix ''/tcp'' addr"
  from n have s: "\<not> HasSuffix addr ''/tcp''"
    by (simp add: HasSuffix_iff)
  have c: "Contains addr '':'' \<longleftrightarrow> CHR '':'' \<in> set addr"
    by (rule Contains_single)
  show ?thesis
    using h by (simp add: s c Let_def del: Contains.simps)
qed

lemma range_DNS_empty: "range_DNS d [''/tcp''] [] = [] \<and> range_DNS d [''''] [] = []"
  by (simp add: HasSuffix_def Let_def)

lemma range_DoT_two:
  assumes "u \<noteq> []" "s \<noteq> []" "CHR ''@'' \<notin> set u" "CHR ''@'' \<notin> set s"
  shows "range_DoT d [u @ ''@'' @ s] [] =
     [NewDoTCaller (if CHR '':'' \<in> set u then u else u @ '':853'') s d]"
proof -
  have sp: "Split (u @ CHR ''@'' # s) CHR ''@'' = [u, s]"
    using assms by (simp add: Split_two_iff)
  have c: "Contains u '':'' \<longleftrightarrow> CHR '':'' \<in> set u"
    by (rule Contains_single)
  show ?thesis
    using assms(1,2) by (simp add: sp c Let_def del: Contains.simps Split.simps)
qed

lemma range_DoT_skip:
  assumes "\<nexists>u s. addr = u @ ''@'' @ s \<and> u \<noteq> [] \<and> s \<noteq> [] \<and> CHR ''@'' \<notin> set u \<and> CHR ''@'' \<notin> set s"
  shows "range_DoT d [addr] [] = []"
proof (cases "length (Split addr CHR ''@'') = 2")
  case False
  then show ?thesis by (simp add: Let_def del: Split.simps)
next
  case True
  then obtain u s where sp: "Split addr CHR ''@'' = [u, s]"
    by (cases "Split addr CHR ''@''"; simp) (metis length_0_conv length_Suc_conv list.exhaust Suc_inject)
  then have "addr = u @ ''@'' @ s \<and> CHR ''@'' \<notin> set u \<and> CHR ''@'' \<notin> set s"
    by (simp add: Split_two_iff)
  with assms have "u = [] \<or> s = []" by blast
  then show ?thesis
    by (auto simp add: sp Let_def simp del: Split.simps Contains.simps)
qed

lemma sint_Second: "- 9223372036 \<le> sint (v::go_int) \<Longrightarrow> sint v \<le> 9223372036 \<Longrightarrow>
   sint (v * Second) = sint v * 1000000000"
proof -
  assume a: "- 9223372036 \<le> sint v" "sint v \<le> 9223372036"
  have s: "sint Second = 1000000000" by (simp add: Second_def)
  have "sint (v * Second) = signed_take_bit 63 (sint v * 1000000000)"
    by (simp add: sint_word_ariths s)
  also have "\<dots> = sint v * 1000000000"
    using a by (simp add: signed_take_bit_int_eq_self_iff)
  finally show ?thesis .
qed

subsection \<open>SetDefault\<close>

text \<open>
  C10. SetDefault changes only the fields Listen, GFWList and CNIP, and each of them only
  when it is the empty string, to ":53", "gfwlist.txt" and "cnip.txt"; the fields
  HostsFiles, Hosts, Cache and Groups are unchanged; and applying SetDefault twice is the
  same as applying it once.
\<close>

theorem SetDefault_fields_idempotent:
  "Listen (SetDefault conf) = (if Listen conf = '''' then '':53'' else Listen conf)
   \<and> GFWList (SetDefault conf) = (if GFWList conf = '''' then ''gfwlist.txt'' else GFWList conf)
   \<and> CNIP (SetDefault conf) = (if CNIP conf = '''' then ''cnip.txt'' else CNIP conf)
   \<and> HostsFiles (SetDefault conf) = HostsFiles conf
   \<and> Hosts (SetDefault conf) = Hosts conf
   \<and> Cache (SetDefault conf) = Cache conf
   \<and> Groups (SetDefault conf) = Groups conf
   \<and> SetDefault (SetDefault conf) = SetDefault conf"
  by (simp add: SetDefault_def Let_def)

subsection \<open>GenCallers\<close>

text \<open>
  C4. The plain-DNS callers of a group are generated address by address from its DNS
  list, in order. An address \<open>host/tcp\<close> gives one caller on the network
  \<^verbatim>\<open>tcp\<close> that dials \<open>host\<close>, the suffix stripped; any other address gives one
  caller on the network \<^verbatim>\<open>udp\<close>; in both cases \<^verbatim>\<open>:53\<close> is appended
  to the dialed address when the address contains no colon. (The empty address and the
  bare suffix \<^verbatim>\<open>/tcp\<close> give no caller.)
\<close>

theorem GenCallers_DNS_transport:
  "filter is_DNSCaller (GenCallers conf) =
     concat (map (\<lambda>addr. range_DNS (GenDialer conf) [addr] []) (DNS conf))
   \<and> (\<forall>host. host \<noteq> [] \<longrightarrow>
         range_DNS d [host @ ''/tcp''] [] =
           [NewDNSCaller (if CHR '':'' \<in> set host then host else host @ '':53'') ''tcp'' d])
   \<and> (\<forall>addr. addr \<noteq> [] \<and> \<not> suffix ''/tcp'' addr \<longrightarrow>
         range_DNS d [addr] [] =
           [NewDNSCaller (if CHR '':'' \<in> set addr then addr else addr @ '':53'') ''udp'' d])
   \<and> range_DNS d [''/tcp''] [] = [] \<and> range_DNS d [''''] [] = []"
  using filter_DNS [of conf] range_DNS_tcp [of _ d] range_DNS_udp [of _ d] range_DNS_empty [of d]
  by blast

theorem GenCallers_DNS_transport_witness:
  "filter is_DNSCaller (GenCallers clean_full) =
     [NewDNSCaller ''119.29.29.29:53'' ''tcp'' None,
      NewDNSCaller ''223.5.5.5:53'' ''udp'' None,
      NewDNSCaller ''114.114.114.114:53'' ''udp'' None]
   \<and> ''119.29.29.29'' \<noteq> []
   \<and> range_DNS None [''119.29.29.29'' @ ''/tcp''] [] =
       [NewDNSCaller ''119.29.29.29:53'' ''tcp'' None]
   \<and> ''114.114.114.114'' \<noteq> [] \<and> \<not> suffix ''/tcp'' ''114.114.114.114''
   \<and> range_DNS None [''114.114.114.114''] [] =
       [NewDNSCaller ''114.114.114.114:53'' ''udp'' None]"
  using GenCallers_DNS_transport [of clean_full None]
  by (simp add: clean_full_def GenCallers_def GenDialer_def HasSuffix_def HasPrefix_def
      Let_def suffix_to_prefix)

text \<open>
  C5. The DNS-over-TLS callers of a group are generated address by address from its DoT
  list, in order. An address gives a caller exactly when it is \<open>u@s\<close> with \<open>u\<close> and
  \<open>s\<close> non-empty and free of \<^verbatim>\<open>@\<close> (it splits on \<^verbatim>\<open>@\<close> into exactly two
  non-empty parts): the caller dials \<open>u\<close>, with \<^verbatim>\<open>:853\<close> appended when \<open>u\<close>
  contains no colon, and verifies the server name \<open>s\<close>. Every other address, so every
  address without a server name, gives no caller.
\<close>

theorem GenCallers_DoT_server_name:
  "filter is_DoTCaller (GenCallers conf) =
     concat (map (\<lambda>addr. range_DoT (GenDialer conf) [addr] []) (DoT conf))
   \<and> (\<forall>u s. u \<noteq> [] \<and> s \<noteq> [] \<and> CHR ''@'' \<notin> set u \<and> CHR ''@'' \<notin> set s \<longrightarrow>
         range_DoT d [u @ ''@'' @ s] [] =
           [NewDoTCaller (if CHR '':'' \<in> set u then u else u @ '':853'') s d])
   \<and> (\<forall>addr.
         (\<nexists>u s. addr = u @ ''@'' @ s \<and> u \<noteq> [] \<and> s \<noteq> []
            \<and> CHR ''@'' \<notin> set u \<and> CHR ''@'' \<notin> set s) \<longrightarrow>
         range_DoT d [addr] [] = [])"
  using filter_DoT [of conf] range_DoT_two [of _ _ d] range_DoT_skip [of _ d]
  by blast

theorem GenCallers_DoT_server_name_witness:
  "filter is_DoTCaller (GenCallers dirty_full) =
     concat (map (\<lambda>addr. range_DoT (GenDialer dirty_full) [addr] []) (DoT dirty_full))
   \<and> (''1.0.0.1'' \<noteq> [] \<and> ''cloudflare-dns.com'' \<noteq> []
       \<and> CHR ''@'' \<notin> set ''1.0.0.1'' \<and> CHR ''@'' \<notin> set ''cloudflare-dns.com'')
   \<and> range_DoT None [''1.0.0.1'' @ ''@'' @ ''cloudflare-dns.com''] [] =
       [NewDoTCaller ''1.0.0.1:853'' ''cloudflare-dns.com'' None]
   \<and> (\<nexists>u s. ''1.0.0.1:853'' = u @ ''@'' @ s \<and> u \<noteq> [] \<and> s \<noteq> []
         \<and> CHR ''@'' \<notin> set u \<and> CHR ''@'' \<notin> set s)
   \<and> range_DoT None [''1.0.0.1:853''] [] = []"
proof -
  note t = GenCallers_DoT_server_name [of dirty_full None]
  have h: "''1.0.0.1'' \<noteq> [] \<and> ''cloudflare-dns.com'' \<noteq> []
      \<and> CHR ''@'' \<notin> set ''1.0.0.1'' \<and> CHR ''@'' \<notin> set ''cloudflare-dns.com''"
    by simp
  have n: "\<nexists>u s. ''1.0.0.1:853'' = u @ ''@'' @ s \<and> u \<noteq> [] \<and> s \<noteq> []
      \<and> CHR ''@'' \<notin> set u \<and> CHR ''@'' \<notin> set s"
  proof
    assume "\<exists>u s. ''1.0.0.1:853'' = u @ ''@'' @ s \<and> u \<noteq> [] \<and> s \<noteq> []
      \<and> CHR ''@'' \<notin> set u \<and> CHR ''@'' \<notin> set s"
    then obtain u s where e: "''1.0.0.1:853'' = u @ ''@'' @ s" by blast
    have "CHR ''@'' \<in> set ''1.0.0.1:853''" by (subst e) simp
    then show False by simp
  qed
  from t have 1: "filter is_DoTCaller (GenCallers dirty_full) =
      concat (map (\<lambda>addr. range_DoT (GenDialer dirty_full) [addr] []) (DoT dirty_full))"
    by (rule conjunct1)
  from t h have "range_DoT None [''1.0.0.1'' @ ''@'' @ ''cloudflare-dns.com''] [] =
      [NewDoTCaller (if CHR '':'' \<in> set ''1.0.0.1'' then ''1.0.0.1''
         else ''1.0.0.1'' @ '':853'') ''cloudflare-dns.com'' None]"
    by blast
  then have 2: "range_DoT None [''1.0.0.1'' @ ''@'' @ ''cloudflare-dns.com''] [] =
      [NewDoTCaller ''1.0.0.1:853'' ''cloudflare-dns.com'' None]"
    by simp
  from t n have 3: "range_DoT None [''1.0.0.1:853''] [] = []"
    by blast
  from 1 h 2 n 3 show ?thesis
    by blast
qed

text \<open>
  C6. The DNS-over-HTTPS callers of a group are, in order, one caller for each address of
  its DoH list that matches \<^verbatim>\<open>^https://.+/dns-query$\<close>, and no caller for the
  others; an address matches exactly when it is \<^verbatim>\<open>https://\<close>, then one or more
  bytes other than a line feed, then \<^verbatim>\<open>/dns-query\<close>.
\<close>

theorem GenCallers_DoH_pattern:
  "filter is_DoHCaller (GenCallers conf) =
     map (\<lambda>addr. NewDoHCaller addr (GenDialer conf)) (filter (MatchString dohReg) (DoH conf))
   \<and> (MatchString dohReg addr \<longleftrightarrow>
        (\<exists>x. x \<noteq> [] \<and> CHR 0x0A \<notin> set x \<and> addr = ''https://'' @ x @ ''/dns-query''))"
  using filter_DoH [of conf] dohReg_iff [of addr]
  by blast

theorem GenCallers_DoH_pattern_witness:
  "filter is_DoHCaller (GenCallers dirty_full) =
     [NewDoHCaller ''https://cloudflare-dns.com/dns-query''
        (Some (SOCKS5 ''tcp'' ''127.0.0.1:1080''))]
   \<and> MatchString dohReg ''https://cloudflare-dns.com/dns-query''
   \<and> \<not> MatchString dohReg ''https:///dns-query''"
proof -
  have m: "MatchString dohReg ''https://cloudflare-dns.com/dns-query''"
    and n: "\<not> MatchString dohReg ''https:///dns-query''"
    by (simp_all add: dohReg_def HasPrefix_def)
  from GenCallers_DoH_pattern [of dirty_full] have
    "filter is_DoHCaller (GenCallers dirty_full) =
       map (\<lambda>addr. NewDoHCaller addr (GenDialer dirty_full))
         (filter (MatchString dohReg) (DoH dirty_full))"
    by (rule conjunct1)
  also have "DoH dirty_full = [''https://cloudflare-dns.com/dns-query'']"
    by (simp add: dirty_full_def)
  also have "GenDialer dirty_full = Some (SOCKS5 ''tcp'' ''127.0.0.1:1080'')"
    by (simp add: dirty_full_def GenDialer_def)
  finally show ?thesis
    using m n by simp
qed

subsection \<open>GenCache\<close>

text \<open>
  C9. On a configuration with a cache section, GenCache replaces each of Size, MinTTL and
  MaxTTL that is exactly zero by its default (4096, 60 and 86400) in the configuration,
  keeps every non-zero value, negative ones too, and builds the cache from the size and
  from the two TTLs multiplied by \<^verbatim>\<open>time.Second\<close>: 60 seconds and 86400 seconds
  for the defaults, and \<open>v\<close> seconds for every \<open>v\<close> whose product does not leave the
  64 bits of a \<^verbatim>\<open>time.Duration\<close>.
\<close>

theorem GenCache_defaults:
  "Cache conf = Some cache \<Longrightarrow>
   GenCache e conf = Returned
     (conf\<lparr>Cache := Some (cache\<lparr>
         Size := (if Size cache = 0 then 4096 else Size cache),
         MinTTL := (if MinTTL cache = 0 then 60 else MinTTL cache),
         MaxTTL := (if MaxTTL cache = 0 then 86400 else MaxTTL cache)\<rparr>)\<rparr>,
      NewDNSCache e
        (if Size cache = 0 then 4096 else Size cache)
        ((if MinTTL cache = 0 then 60 else MinTTL cache) * Second)
        ((if MaxTTL cache = 0 then 86400 else MaxTTL cache) * Second))
   \<and> sint (60 * Second) = 60 * 1000000000
   \<and> sint (86400 * Second) = 86400 * 1000000000
   \<and> (\<forall>v. - 9223372036 \<le> sint v \<and> sint v \<le> 9223372036 \<longrightarrow>
         sint (v * Second) = sint v * 1000000000)"
  using sint_Second by (simp add: GenCache_def Let_def Second_def)

theorem GenCache_defaults_witness:
  "Cache (conf_full\<lparr>Cache := Some \<lparr>Size = 0, MinTTL = - 5, MaxTTL = 0\<rparr>\<rparr>) =
     Some \<lparr>Size = 0, MinTTL = - 5, MaxTTL = 0\<rparr>
   \<and> GenCache (run_env conf_full files_full)
       (conf_full\<lparr>Cache := Some \<lparr>Size = 0, MinTTL = - 5, MaxTTL = 0\<rparr>\<rparr>) =
     Returned
       (conf_full\<lparr>Cache := Some \<lparr>Size = 4096, MinTTL = - 5, MaxTTL = 86400\<rparr>\<rparr>,
        (4096, - 5 * Second, 86400 * Second))
   \<and> - 9223372036 \<le> sint (- 5 :: go_int) \<and> sint (- 5 :: go_int) \<le> 9223372036
   \<and> sint ((- 5 :: go_int) * Second) = - 5000000000"
proof -
  have c: "Cache (conf_full\<lparr>Cache := Some \<lparr>Size = 0, MinTTL = - 5, MaxTTL = 0\<rparr>\<rparr>) =
      Some \<lparr>Size = 0, MinTTL = - 5, MaxTTL = 0\<rparr>"
    by simp
  have b: "- 9223372036 \<le> sint (- 5 :: go_int) \<and> sint (- 5 :: go_int) \<le> 9223372036"
    by simp
  note t = GenCache_defaults [OF c, of "run_env conf_full files_full"]
  from t b have s: "sint ((- 5 :: go_int) * Second) = sint (- 5 :: go_int) * 1000000000"
    by blast
  from t have "GenCache (run_env conf_full files_full)
       (conf_full\<lparr>Cache := Some \<lparr>Size = 0, MinTTL = - 5, MaxTTL = 0\<rparr>\<rparr>) =
     Returned
       (conf_full\<lparr>Cache := Some \<lparr>Size = 4096, MinTTL = - 5, MaxTTL = 86400\<rparr>\<rparr>,
        (4096, - 5 * Second, 86400 * Second))"
    by (simp add: run_env_def)
  with c b s show ?thesis
    by simp
qed

subsection \<open>The loops of GenHostsReader and NewHandler\<close>

lemma range_HostsFiles_concat:
  "range_HostsFiles e fs readers log =
     (readers @ concat (map (\<lambda>filename.
          case NewReaderByFile e filename 0 of Inl err \<Rightarrow> [] | Inr reader \<Rightarrow> [reader]) fs),
      log @ concat (map (\<lambda>filename.
          case NewReaderByFile e filename 0 of
            Inl err \<Rightarrow>
              [Entry WarnLevel [(''file'', filename)] (''read hosts error: '' @ Error err)]
          | Inr reader \<Rightarrow> []) fs))"
  by (induction fs arbitrary: readers log) (simp_all split: sum.splits)

lemma GenIPSet_cong:
  "ipset_New e' = ipset_New e \<Longrightarrow> GenIPSet e' g = GenIPSet e g"
  by (simp add: GenIPSet_def)

lemma range_Groups_fst:
  "NewABPByText e' = NewABPByText e \<Longrightarrow> ipset_New e' = ipset_New e \<Longrightarrow>
   fst (range_Groups e' gs acc log') = fst (range_Groups e gs acc log)"
proof (induction gs arbitrary: acc log log')
  case Nil
  then show ?case by simp
next
  case (Cons p gs)
  obtain name g where p: "p = (name, g)" by (cases p)
  have i: "GenIPSet e' g = GenIPSet e g"
    by (rule GenIPSet_cong) (rule Cons.prems(2))
  show ?case
  proof (cases "GenIPSet e g")
    case (Inl err)
    with i show ?thesis by (simp add: p Let_def)
  next
    case (Inr ipSet)
    show ?thesis
      unfolding p range_Groups.simps Let_def i Inr sum.case Cons.prems(1)
      by (rule Cons.IH [OF Cons.prems])
  qed
qed

lemma range_Groups_other:
  "fst (range_Groups e gs acc log) = Inr groups \<Longrightarrow> name \<notin> fst ` set gs \<Longrightarrow>
   map_of groups name = map_of acc name"
proof (induction gs arbitrary: acc log)
  case Nil
  then show ?case by simp
next
  case (Cons p gs)
  obtain n g where p: "p = (n, g)" by (cases p)
  from Cons.prems(2) p have ne: "name \<noteq> n" and notin: "name \<notin> fst ` set gs"
    by auto
  show ?case
  proof (cases "GenIPSet e g")
    case (Inl err)
    with Cons.prems(1) show ?thesis by (simp add: p Let_def)
  next
    case (Inr ipSet)
    define acc' where "acc' = AList.update n
        \<lparr>Callers = GenCallers g, Concurrent_h = Concurrent g,
         Matcher = NewABPByText e (Join (Rules g) [CHR 0x0A]), IPSet_h = ipSet\<rparr> acc"
    from Cons.prems(1) obtain log' where "fst (range_Groups e gs acc' log') = Inr groups"
      unfolding p range_Groups.simps Let_def Inr sum.case acc'_def by blast
    from Cons.IH [OF this notin] have "map_of groups name = map_of acc' name" .
    with ne show ?thesis
      by (simp add: acc'_def update_conv')
  qed
qed

lemma range_Groups_lookup:
  "fst (range_Groups e gs acc log) = Inr groups \<Longrightarrow> distinct (map fst gs) \<Longrightarrow>
   (name, g) \<in> set gs \<Longrightarrow>
   \<exists>ipSet. GenIPSet e g = Inr ipSet \<and>
     map_of groups name =
       Some \<lparr>Callers = GenCallers g, Concurrent_h = Concurrent g,
             Matcher = NewABPByText e (Join (Rules g) [CHR 0x0A]), IPSet_h = ipSet\<rparr>"
proof (induction gs arbitrary: acc log)
  case Nil
  then show ?case by simp
next
  case (Cons p gs)
  obtain n g' where p: "p = (n, g')" by (cases p)
  from Cons.prems(2) p have notin: "n \<notin> fst ` set gs" and dist: "distinct (map fst gs)"
    by auto
  show ?case
  proof (cases "GenIPSet e g'")
    case (Inl err)
    with Cons.prems(1) show ?thesis by (simp add: p Let_def)
  next
    case (Inr ipSet)
    define acc' where "acc' = AList.update n
        \<lparr>Callers = GenCallers g', Concurrent_h = Concurrent g',
         Matcher = NewABPByText e (Join (Rules g') [CHR 0x0A]), IPSet_h = ipSet\<rparr> acc"
    from Cons.prems(1) obtain log' where r: "fst (range_Groups e gs acc' log') = Inr groups"
      unfolding p range_Groups.simps Let_def Inr sum.case acc'_def by blast
    show ?thesis
    proof (cases "(name, g) \<in> set gs")
      case True
      from Cons.IH [OF r dist True] show ?thesis .
    next
      case False
      with Cons.prems(3) p have eq: "name = n" "g = g'" by auto
      from range_Groups_other [OF r notin] have "map_of groups n = map_of acc' n" .
      with Inr eq show ?thesis
        by (simp add: acc'_def update_conv')
    qed
  qed
qed

lemma range_Groups_ok:
  "\<forall>(name, g) \<in> set gs. \<exists>ipSet. GenIPSet e g = Inr ipSet \<Longrightarrow>
   \<exists>groups. fst (range_Groups e gs acc log) = Inr groups"
proof (induction gs arbitrary: acc log)
  case Nil
  then show ?case by simp
next
  case (Cons p gs)
  obtain n g where p: "p = (n, g)" by (cases p)
  from Cons.prems p obtain ipSet where i: "GenIPSet e g = Inr ipSet" by auto
  from Cons.prems have rest: "\<forall>(name, g) \<in> set gs. \<exists>ipSet. GenIPSet e g = Inr ipSet" by simp
  show ?case
    unfolding p range_Groups.simps Let_def i sum.case
    by (rule Cons.IH [OF rest])
qed

lemma map_of_Some_not_Nil: "map_of groups name = Some v \<Longrightarrow> groups \<noteq> []"
  by auto

lemma checkGroups_False:
  "map_of groups ''clean'' = Some clean \<Longrightarrow> Callers clean \<noteq> [] \<Longrightarrow>
   map_of groups ''dirty'' = Some dirty \<Longrightarrow> Callers dirty \<noteq> [] \<Longrightarrow>
   checkGroups groups = Returned False"
  by (auto simp: checkGroups_def dest: map_of_Some_not_Nil)

lemma checkGroups_no_dirty:
  "map_of groups ''clean'' = Some clean \<Longrightarrow> Callers clean \<noteq> [] \<Longrightarrow>
   map_of groups ''dirty'' = None \<Longrightarrow> checkGroups groups = Panicked"
  by (auto simp: checkGroups_def dest: map_of_Some_not_Nil)

lemma GenCache_Some:
  "Cache conf = Some k \<Longrightarrow>
   \<exists>config' cache. GenCache e conf = Returned (config', cache)
     \<and> Groups config' = Groups conf \<and> Listen config' = Listen conf"
  by (auto simp: GenCache_def Let_def)

lemma GenCache_fst_cong:
  "NewDNSCache e' = NewDNSCache e \<Longrightarrow> GenCache e' conf = GenCache e conf"
  unfolding GenCache_def by (erule ssubst) (rule refl)

subsection \<open>NewHandler\<close>

lemma SetDefault_keeps: "Groups (SetDefault conf) = Groups conf" "Cache (SetDefault conf) = Cache conf"
  by (simp_all add: SetDefault_def Let_def)

lemma GenCache_Returned:
  "GenCache e conf = Returned (config', cache) \<Longrightarrow>
   Groups config' = Groups conf \<and> Listen config' = Listen conf \<and> Cache conf \<noteq> None"
  by (auto simp: GenCache_def Let_def split: option.splits)

text \<open>What \<open>NewHandler\<close> returns, the log left out.\<close>

lemma NewHandler_fst:
  "fst (NewHandler e filename) =
     (case DecodeFile e filename of
        Inl err \<Rightarrow> Returned (None, Some err)
      | Inr config \<Rightarrow>
          (case NewABPByFile e (GFWList (SetDefault config)) True of
             Inl err \<Rightarrow> Returned (None, Some err)
           | Inr m \<Rightarrow>
               (case NewRamSetByFile e (CNIP (SetDefault config)) of
                  Inl err \<Rightarrow> Returned (None, Some err)
                | Inr s \<Rightarrow>
                    (case GenCache e (SetDefault config) of
                       Panicked \<Rightarrow> Panicked
                     | Returned (config', cache) \<Rightarrow>
                         (case fst (range_Groups e (Groups config') []
                                 (snd (GenHostsReader e (SetDefault config)))) of
                            Inl err \<Rightarrow> Returned (None, Some err)
                          | Inr groups \<Rightarrow>
                              (case checkGroups groups of
                                 Panicked \<Rightarrow> Panicked
                               | Returned True \<Rightarrow> Returned (None, Some emptyGroupError)
                               | Returned False \<Rightarrow>
                                   Returned
                                     (Some \<lparr>Listen_h = Listen config', GFWMatcher = m,
                                        CNIP_h = s,
                                        HostsReaders = fst (GenHostsReader e (SetDefault config)),
                                        Cache_h = cache, Groups_h = groups\<rparr>,
                                      None)))))))"
  by (simp add: NewHandler_def Let_def
      split: sum.splits prod.splits outcome.splits bool.splits)

lemma NewHandler_SomeD:
  assumes "fst (NewHandler e filename) = Returned (Some h, None)"
    and "DecodeFile e filename = Inr config"
  shows "\<exists>groups. NewABPByFile e (GFWList (SetDefault config)) True = Inr (GFWMatcher h)
     \<and> fst (range_Groups e (Groups config) [] (snd (GenHostsReader e (SetDefault config)))) =
         Inr groups
     \<and> checkGroups groups = Returned False
     \<and> Groups_h h = groups
     \<and> HostsReaders h = fst (GenHostsReader e (SetDefault config))"
proof -
  from assms obtain m where m: "NewABPByFile e (GFWList (SetDefault config)) True = Inr m"
    by (cases "NewABPByFile e (GFWList (SetDefault config)) True") (simp_all add: NewHandler_fst)
  from assms m obtain s where s: "NewRamSetByFile e (CNIP (SetDefault config)) = Inr s"
    by (cases "NewRamSetByFile e (CNIP (SetDefault config))") (simp_all add: NewHandler_fst)
  from assms m s obtain config' cache where
    c: "GenCache e (SetDefault config) = Returned (config', cache)"
    by (cases "GenCache e (SetDefault config)") (auto simp add: NewHandler_fst)
  from GenCache_Returned [OF c] have g: "Groups config' = Groups config"
    by (simp add: SetDefault_keeps)
  let ?r = "fst (range_Groups e (Groups config) [] (snd (GenHostsReader e (SetDefault config))))"
  from assms m s c g obtain groups where r: "?r = Inr groups"
    by (cases ?r) (simp_all add: NewHandler_fst)
  from assms m s c g r have k: "checkGroups groups = Returned False"
    by (cases "checkGroups groups") (auto simp add: NewHandler_fst split: bool.splits)
  from assms m s c g r k have
    "h = \<lparr>Listen_h = Listen config', GFWMatcher = m, CNIP_h = s,
          HostsReaders = fst (GenHostsReader e (SetDefault config)),
          Cache_h = cache, Groups_h = groups\<rparr>"
    by (simp add: NewHandler_fst)
  with m r k show ?thesis by simp
qed

lemma NewHandler_full:
  "fst (NewHandler (run_env conf_full files_full) ''ts-dns.toml'') =
     Returned (Some handler_full, None)"
  by code_simp

text \<open>The two halves of the validity check, once the files are read, the cache section
  is there and the IPSets are created: a group "clean" without callers is answered by the
  error, and a missing group "dirty" beside a group "clean" with callers by a panic.\<close>

lemma checkGroups_no_callers:
  "map_of groups ''clean'' = Some clean \<Longrightarrow> Callers clean = [] \<Longrightarrow>
   checkGroups groups = Returned True"
  by (simp add: checkGroups_def)

lemma NewHandler_clean_without_callers:
  assumes "DecodeFile e filename = Inr config"
    and "NewABPByFile e (GFWList (SetDefault config)) True = Inr m"
    and "NewRamSetByFile e (CNIP (SetDefault config)) = Inr s"
    and "Cache config = Some k"
    and "\<forall>(name, g) \<in> set (Groups config). \<exists>ipSet. GenIPSet e g = Inr ipSet"
    and "distinct (map fst (Groups config))"
    and "(''clean'', clean) \<in> set (Groups config)" and "GenCallers clean = []"
  shows "fst (NewHandler e filename) = Returned (None, Some emptyGroupError)"
proof -
  from assms(4) have "Cache (SetDefault config) = Some k"
    by (simp add: SetDefault_keeps)
  from GenCache_Some [OF this, of e] obtain config' cache where
    c: "GenCache e (SetDefault config) = Returned (config', cache)"
    and g: "Groups config' = Groups config"
    by (auto simp: SetDefault_keeps)
  from range_Groups_ok [OF assms(5)] obtain groups where
    r: "fst (range_Groups e (Groups config) []
          (snd (GenHostsReader e (SetDefault config)))) = Inr groups"
    by blast
  from range_Groups_lookup [OF r assms(6) assms(7)] assms(8) obtain hc where
    "map_of groups ''clean'' = Some hc" "Callers hc = []"
    by auto
  then have "checkGroups groups = Returned True"
    by (rule checkGroups_no_callers)
  then show ?thesis
    by (simp add: NewHandler_fst assms(1-3) c g r)
qed

lemma NewHandler_without_dirty:
  assumes "DecodeFile e filename = Inr config"
    and "NewABPByFile e (GFWList (SetDefault config)) True = Inr m"
    and "NewRamSetByFile e (CNIP (SetDefault config)) = Inr s"
    and "Cache config = Some k"
    and "\<forall>(name, g) \<in> set (Groups config). \<exists>ipSet. GenIPSet e g = Inr ipSet"
    and "distinct (map fst (Groups config))"
    and "(''clean'', clean) \<in> set (Groups config)" and "GenCallers clean \<noteq> []"
    and "''dirty'' \<notin> fst ` set (Groups config)"
  shows "fst (NewHandler e filename) = Panicked"
proof -
  from assms(4) have "Cache (SetDefault config) = Some k"
    by (simp add: SetDefault_keeps)
  from GenCache_Some [OF this, of e] obtain config' cache where
    c: "GenCache e (SetDefault config) = Returned (config', cache)"
    and g: "Groups config' = Groups config"
    by (auto simp: SetDefault_keeps)
  from range_Groups_ok [OF assms(5)] obtain groups where
    r: "fst (range_Groups e (Groups config) []
          (snd (GenHostsReader e (SetDefault config)))) = Inr groups"
    by blast
  from range_Groups_lookup [OF r assms(6) assms(7)] assms(8) obtain hc where
    hc: "map_of groups ''clean'' = Some hc" "Callers hc \<noteq> []"
    by auto
  from range_Groups_other [OF r assms(9)] have "map_of groups ''dirty'' = None"
    by simp
  with hc have "checkGroups groups = Panicked"
    by (simp add: checkGroups_no_dirty)
  then show ?thesis
    by (simp add: NewHandler_fst assms(1-3) c g r)
qed

text \<open>
  C1 (the code departs from the claim). The sample configuration without the group
  "dirty": the group "clean" has callers, the validity check reads
  \<^verbatim>\<open>handler.Groups["dirty"].Callers\<close> through a nil pointer, and \<open>NewHandler\<close>
  panics where the claim has it return a nil handler and an error.
\<close>

theorem NewHandler_missing_dirty_panics:
  "map_of (Groups conf_no_dirty) ''dirty'' = None
   \<and> fst (NewHandler (run_env conf_no_dirty files_full) ''ts-dns.toml'') = Panicked"
  by code_simp

text \<open>
  C8, as stated, fails: the sample configuration with one more, empty group has callers
  in "clean" and in "dirty", and \<open>NewHandler\<close> returns the error of reading the deny
  list when that file is missing.
\<close>

theorem NewHandler_unreadable_gfwlist:
  "GenCallers clean_full \<noteq> [] \<and> GenCallers dirty_full \<noteq> [] \<and> GenCallers spare_group = []
   \<and> fst (NewHandler (run_env conf_spare files_no_gfwlist) ''ts-dns.toml'') =
       Returned (None, Some (Errorf ''open gfwlist.txt: no such file or directory''))"
  by code_simp

text \<open>
  C8, amended. When the configuration file decodes, the deny list and the CN-IP list are
  read, the configuration has a cache section, the IPSet of every group is created, and
  the groups "clean" and "dirty" each have at least one caller, \<open>NewHandler\<close> returns a
  handler and no error, and every configured group, also one with no callers, is in the
  handler's group map with the callers \<open>GenCallers\<close> gives it.
\<close>

theorem NewHandler_keeps_empty_groups:
  assumes "DecodeFile e filename = Inr config"
    and "NewABPByFile e (GFWList (SetDefault config)) True = Inr m"
    and "NewRamSetByFile e (CNIP (SetDefault config)) = Inr s"
    and "Cache config = Some k"
    and "\<forall>(name, g) \<in> set (Groups config). \<exists>ipSet. GenIPSet e g = Inr ipSet"
    and "distinct (map fst (Groups config))"
    and "(''clean'', clean) \<in> set (Groups config)" and "GenCallers clean \<noteq> []"
    and "(''dirty'', dirty) \<in> set (Groups config)" and "GenCallers dirty \<noteq> []"
  shows "\<exists>h. fst (NewHandler e filename) = Returned (Some h, None)
     \<and> (\<forall>(name, g) \<in> set (Groups config).
          \<exists>hg. map_of (Groups_h h) name = Some hg \<and> Callers hg = GenCallers g)"
proof -
  from assms(4) have "Cache (SetDefault config) = Some k"
    by (simp add: SetDefault_keeps)
  from GenCache_Some [OF this, of e] obtain config' cache where
    c: "GenCache e (SetDefault config) = Returned (config', cache)"
    and g: "Groups config' = Groups config"
    by (auto simp: SetDefault_keeps)
  let ?log = "snd (GenHostsReader e (SetDefault config))"
  from range_Groups_ok [OF assms(5)] obtain groups where
    r: "fst (range_Groups e (Groups config) [] ?log) = Inr groups"
    by blast
  from range_Groups_lookup [OF r assms(6) assms(7)] obtain hc where
    hc: "map_of groups ''clean'' = Some hc" "Callers hc = GenCallers clean"
    by auto
  from range_Groups_lookup [OF r assms(6) assms(9)] obtain hd where
    hd: "map_of groups ''dirty'' = Some hd" "Callers hd = GenCallers dirty"
    by auto
  from hc hd assms(8) assms(10) have k: "checkGroups groups = Returned False"
    by (simp add: checkGroups_False)
  define h where "h = \<lparr>Listen_h = Listen config', GFWMatcher = m, CNIP_h = s,
      HostsReaders = fst (GenHostsReader e (SetDefault config)),
      Cache_h = cache, Groups_h = groups\<rparr>"
  have 1: "fst (NewHandler e filename) = Returned (Some h, None)"
    by (simp add: NewHandler_fst assms(1-3) c g r k h_def)
  have 2: "\<exists>hg. map_of (Groups_h h) name = Some hg \<and> Callers hg = GenCallers g"
    if "(name, g) \<in> set (Groups config)" for name g
    using range_Groups_lookup [OF r assms(6) that] by (auto simp: h_def)
  from 1 2 show ?thesis by blast
qed

theorem NewHandler_keeps_empty_groups_witness:
  "DecodeFile (run_env conf_spare files_full) ''ts-dns.toml'' = Inr conf_spare
   \<and> NewABPByFile (run_env conf_spare files_full) (GFWList (SetDefault conf_spare)) True =
       Inr ''example.com''
   \<and> NewRamSetByFile (run_env conf_spare files_full) (CNIP (SetDefault conf_spare)) =
       Inr ''1.0.1.0/24''
   \<and> Cache conf_spare = Some \<lparr>Size = 4096, MinTTL = 60, MaxTTL = 86400\<rparr>
   \<and> list_all (\<lambda>(name, g). \<exists>ipSet. GenIPSet (run_env conf_spare files_full) g = Inr ipSet)
       (Groups conf_spare)
   \<and> distinct (map fst (Groups conf_spare))
   \<and> (''clean'', clean_full) \<in> set (Groups conf_spare) \<and> GenCallers clean_full \<noteq> []
   \<and> (''dirty'', dirty_full) \<in> set (Groups conf_spare) \<and> GenCallers dirty_full \<noteq> []
   \<and> (''spare'', spare_group) \<in> set (Groups conf_spare) \<and> GenCallers spare_group = []
   \<and> (\<exists>h. fst (NewHandler (run_env conf_spare files_full) ''ts-dns.toml'') =
           Returned (Some h, None)
         \<and> (\<exists>hg. map_of (Groups_h h) ''spare'' = Some hg \<and> Callers hg = []))"
proof -
  let ?e = "run_env conf_spare files_full"
  have 1: "DecodeFile ?e ''ts-dns.toml'' = Inr conf_spare"
    by (simp add: run_env_def)
  have 2: "NewABPByFile ?e (GFWList (SetDefault conf_spare)) True = Inr ''example.com''"
    by code_simp
  have 3: "NewRamSetByFile ?e (CNIP (SetDefault conf_spare)) = Inr ''1.0.1.0/24''"
    by code_simp
  have 4: "Cache conf_spare = Some \<lparr>Size = 4096, MinTTL = 60, MaxTTL = 86400\<rparr>"
    by (simp add: conf_spare_def conf_full_def)
  have gs: "Groups conf_spare =
      [(''clean'', clean_full), (''dirty'', dirty_full), (''work'', work_full),
       (''spare'', spare_group)]"
    by (simp add: conf_spare_def conf_full_def)
  have 5: "list_all (\<lambda>(name, g). \<exists>ipSet. GenIPSet ?e g = Inr ipSet) (Groups conf_spare)"
    by (simp add: gs GenIPSet_def run_env_def)
  have 6: "distinct (map fst (Groups conf_spare))"
    by (simp add: gs)
  have 7: "(''clean'', clean_full) \<in> set (Groups conf_spare)"
    and 9: "(''dirty'', dirty_full) \<in> set (Groups conf_spare)"
    and 11: "(''spare'', spare_group) \<in> set (Groups conf_spare)"
    by (simp_all add: gs)
  have 8: "GenCallers clean_full \<noteq> []"
    by code_simp
  have 10: "GenCallers dirty_full \<noteq> []"
    by code_simp
  have 12: "GenCallers spare_group = []"
    by code_simp
  from 5 have all5: "\<forall>(name, g) \<in> set (Groups conf_spare). \<exists>ipSet. GenIPSet ?e g = Inr ipSet"
    by (simp add: list_all_iff)
  from NewHandler_keeps_empty_groups [OF 1 2 3 4 all5 6 7 8 9 10] obtain h where
    h: "fst (NewHandler ?e ''ts-dns.toml'') = Returned (Some h, None)"
    and a: "\<forall>(name, g) \<in> set (Groups conf_spare).
          \<exists>hg. map_of (Groups_h h) name = Some hg \<and> Callers hg = GenCallers g"
    by blast
  from a 11 12 have "\<exists>hg. map_of (Groups_h h) ''spare'' = Some hg \<and> Callers hg = []"
    by fastforce
  with h have "\<exists>h. fst (NewHandler ?e ''ts-dns.toml'') = Returned (Some h, None)
         \<and> (\<exists>hg. map_of (Groups_h h) ''spare'' = Some hg \<and> Callers hg = [])"
    by blast
  with 1 2 3 4 5 6 7 8 9 10 11 12 show ?thesis
    by blast
qed

text \<open>
  C3, as stated, fails on the sample configuration, with a deny list that holds the rule
  \<^verbatim>\<open>example.com\<close>: the handler's deny-list matcher is built from that rule, the
  matcher of the group "clean" from the text of the group's three inline rules alone, and
  the deny list's rule is on no line of that text. (In \<open>run_env\<close> a matcher is the rule
  text it was built from.)
\<close>

theorem group_matcher_lacks_deny_list:
  "fst (NewHandler (run_env conf_full files_full) ''ts-dns.toml'') =
     Returned (Some handler_full, None)
   \<and> NewABPByFile (run_env conf_full files_full) ''gfwlist.txt'' True = Inr ''example.com''
   \<and> GFWMatcher handler_full = ''example.com''
   \<and> map_option Matcher (map_of (Groups_h handler_full) ''clean'') =
       Some (Join (Rules clean_full) [CHR 0x0A])
   \<and> Split (Join (Rules clean_full) [CHR 0x0A]) CHR 0x0A =
       [''qq.com'', ''.baidu.com'', ''*.taobao.com'']
   \<and> ''example.com'' \<notin> set (Split (Join (Rules clean_full) [CHR 0x0A]) CHR 0x0A)"
  by code_simp

text \<open>
  C3, amended. In the handler that \<open>NewHandler\<close> returns, the matcher of every group is
  built from one source, the group's inline rule list, joined by line feeds (one rule per
  line); the deny list is not part of it, and builds the handler's own deny-list matcher
  \<open>GFWMatcher\<close>. So a group's matcher is the same whatever the deny list holds.
\<close>

theorem NewHandler_group_matcher_inline:
  assumes "fst (NewHandler e filename) = Returned (Some h, None)"
    and "DecodeFile e filename = Inr config"
    and "distinct (map fst (Groups config))"
    and "(name, g) \<in> set (Groups config)"
  shows "NewABPByFile e (GFWList (SetDefault config)) True = Inr (GFWMatcher h)
     \<and> (\<exists>hg. map_of (Groups_h h) name = Some hg
           \<and> Matcher hg = NewABPByText e (Join (Rules g) [CHR 0x0A]))"
proof -
  from NewHandler_SomeD [OF assms(1,2)] obtain groups where
    m: "NewABPByFile e (GFWList (SetDefault config)) True = Inr (GFWMatcher h)"
    and r: "fst (range_Groups e (Groups config) []
          (snd (GenHostsReader e (SetDefault config)))) = Inr groups"
    and g: "Groups_h h = groups"
    by blast
  from range_Groups_lookup [OF r assms(3,4)] g have
    "\<exists>hg. map_of (Groups_h h) name = Some hg
       \<and> Matcher hg = NewABPByText e (Join (Rules g) [CHR 0x0A])"
    by auto
  with m show ?thesis by blast
qed

theorem NewHandler_group_matcher_inline_witness:
  "fst (NewHandler (run_env conf_full files_full) ''ts-dns.toml'') =
     Returned (Some handler_full, None)
   \<and> DecodeFile (run_env conf_full files_full) ''ts-dns.toml'' = Inr conf_full
   \<and> distinct (map fst (Groups conf_full))
   \<and> (''work'', work_full) \<in> set (Groups conf_full)
   \<and> NewABPByFile (run_env conf_full files_full) (GFWList (SetDefault conf_full)) True =
       Inr (GFWMatcher handler_full)
   \<and> (\<exists>hg. map_of (Groups_h handler_full) ''work'' = Some hg \<and> Matcher hg = ''company.com'')"
proof -
  let ?e = "run_env conf_full files_full"
  have d: "DecodeFile ?e ''ts-dns.toml'' = Inr conf_full"
    by (simp add: run_env_def)
  have gs: "Groups conf_full =
      [(''clean'', clean_full), (''dirty'', dirty_full), (''work'', work_full)]"
    by (simp add: conf_full_def)
  have dist: "distinct (map fst (Groups conf_full))"
    by (simp add: gs)
  have mem: "(''work'', work_full) \<in> set (Groups conf_full)"
    by (simp add: gs)
  have t: "NewABPByText ?e (Join (Rules work_full) [CHR 0x0A]) = ''company.com''"
    by (simp add: run_env_def work_full_def)
  from NewHandler_group_matcher_inline [OF NewHandler_full d dist mem] t d dist mem
    NewHandler_full
  show ?thesis
    by simp
qed

subsection \<open>GenHostsReader\<close>

lemma NewHandler_err_hosts:
  "map_outcome snd (fst (NewHandler (e\<lparr>NewReaderByFile := rd\<rparr>) filename)) =
   map_outcome snd (fst (NewHandler e filename))"
proof -
  let ?e' = "e\<lparr>NewReaderByFile := rd\<rparr>"
  have c: "GenCache ?e' conf = GenCache e conf" for conf
    by (rule GenCache_fst_cong) simp
  have r: "fst (range_Groups ?e' gs [] (snd (GenHostsReader ?e' conf))) =
      fst (range_Groups e gs [] (snd (GenHostsReader e conf)))" for gs conf
    by (rule range_Groups_fst) simp_all
  show ?thesis
    unfolding NewHandler_fst
    by (simp add: c r split: sum.splits outcome.splits prod.splits bool.splits)
qed

text \<open>
  C7. GenHostsReader returns the reader of the inline hosts map (when the map has an
  entry), followed by one reader for every hosts file that can be read, in order; a file
  that cannot be read gives no reader and one warning in the log, and nothing else
  changes. Whatever reading the hosts files does, \<open>NewHandler\<close> returns the same error,
  or none: a hosts file that cannot be read never makes it fail.
\<close>

theorem GenHostsReader_swallows_read_errors:
  "fst (GenHostsReader e conf) =
     (if Hosts conf = [] then []
      else [NewReaderByText e
              (Join (map (\<lambda>(hostname, ip). ip @ '' '' @ hostname) (Hosts conf)) [CHR 0x0A])])
     @ concat (map (\<lambda>filename.
          case NewReaderByFile e filename 0 of Inl err \<Rightarrow> [] | Inr reader \<Rightarrow> [reader])
        (HostsFiles conf))
   \<and> snd (GenHostsReader e conf) =
       concat (map (\<lambda>filename.
          case NewReaderByFile e filename 0 of
            Inl err \<Rightarrow>
              [Entry WarnLevel [(''file'', filename)] (''read hosts error: '' @ Error err)]
          | Inr reader \<Rightarrow> [])
        (HostsFiles conf))
   \<and> map_outcome snd (fst (NewHandler (e\<lparr>NewReaderByFile := rd\<rparr>) filename)) =
       map_outcome snd (fst (NewHandler e filename))"
  by (simp add: GenHostsReader_def Let_def range_HostsFiles_concat NewHandler_err_hosts)

theorem GenHostsReader_swallows_read_errors_witness:
  "fst (GenHostsReader (run_env conf_full files_full) conf_full) =
     [''8.8.8.8 example.com'' @ [CHR 0x0A] @ ''1.0.0.1 cloudflare-dns.com'']
   \<and> snd (GenHostsReader (run_env conf_full files_full) conf_full) =
       [Entry WarnLevel [(''file'', ''/etc/hosts'')]
          ''read hosts error: open /etc/hosts: no such file or directory'']
   \<and> map_outcome snd
        (fst (NewHandler
           ((run_env conf_full files_full)\<lparr>NewReaderByFile :=
              (\<lambda>filename reloadTick. Inr ''127.0.0.1 localhost'')\<rparr>) ''ts-dns.toml'')) =
       Returned None"
proof -
  let ?e = "run_env conf_full files_full"
  note t = GenHostsReader_swallows_read_errors
    [of ?e conf_full "\<lambda>filename reloadTick. Inr ''127.0.0.1 localhost''" "''ts-dns.toml''"]
  have 1: "fst (GenHostsReader ?e conf_full) =
      [''8.8.8.8 example.com'' @ [CHR 0x0A] @ ''1.0.0.1 cloudflare-dns.com'']"
    by code_simp
  have 2: "snd (GenHostsReader ?e conf_full) =
       [Entry WarnLevel [(''file'', ''/etc/hosts'')]
          ''read hosts error: open /etc/hosts: no such file or directory'']"
    by code_simp
  from t NewHandler_full have 3: "map_outcome snd
        (fst (NewHandler (?e\<lparr>NewReaderByFile :=
              (\<lambda>filename reloadTick. Inr ''127.0.0.1 localhost'')\<rparr>) ''ts-dns.toml'')) =
       Returned None"
    by simp
  from 1 2 3 show ?thesis
    by blast
qed

subsection \<open>The cache that GenCache builds\<close>

text \<open>
  C2, as stated, fails at size 0: \<open>GenCache\<close> replaces the size 0 by 4096, and the
  cache it builds (here the cache of the specification) is enabled: an entry that was
  set is found.
\<close>

theorem GenCache_size0_enabled:
  "map_option Size (Cache conf_size0) = Some 0
   \<and> map_outcome snd (GenCache (cache_env conf_size0 files_full) conf_size0) =
       Returned (NewDNSCache_spec 4096 (60 * Second) (86400 * Second))
   \<and> DNSCache_Get
        (DNSCache_Set 0 (NewDNSCache_spec 4096 (60 * Second) (86400 * Second))
           0 ''example.com'' response300)
        0 ''example.com'' = Some response300"
  by code_simp

text \<open>
  C2, amended. On a configuration with a cache section, \<open>GenCache\<close> builds a cache of
  size 4096 when the configured size is 0 and of the configured size otherwise; when
  that size is negative the cache (the cache of the specification) is disabled:
  \<^verbatim>\<open>Get\<close> always misses and \<^verbatim>\<open>Set\<close> changes nothing.
\<close>

theorem GenCache_negative_size_disabled:
  assumes "Cache conf = Some k" and "NewDNSCache e = NewDNSCache_spec"
  shows "\<exists>conf' c. GenCache e conf = Returned (conf', c)
     \<and> cache_size c = (if Size k = 0 then 4096 else sint (Size k))
     \<and> (sint (Size k) < 0 \<longrightarrow>
          (\<forall>now key. DNSCache_Get c now key = None)
          \<and> (\<forall>dflt now key r. DNSCache_Set dflt c now key r = c))"
proof -
  define c :: "'a DNSCache" where "c = NewDNSCache_spec
      (if Size k = 0 then 4096 else Size k)
      ((if MinTTL k = 0 then 60 else MinTTL k) * Second)
      ((if MaxTTL k = 0 then 86400 else MaxTTL k) * Second)"
  from assms obtain conf' where g: "GenCache e conf = Returned (conf', c)"
    by (simp add: GenCache_def Let_def c_def)
  have s: "cache_size c = (if Size k = 0 then 4096 else sint (Size k))"
    by (simp add: c_def NewDNSCache_spec_def)
  have d: "(\<forall>now key. DNSCache_Get c now key = None)
      \<and> (\<forall>dflt now key r. DNSCache_Set dflt c now key r = c)" if "sint (Size k) < 0"
  proof -
    from that have "Size k \<noteq> 0" by auto
    with s that have "cache_size c \<le> 0" by simp
    then show ?thesis
      by (simp add: DNSCache_Get_def DNSCache_Set_def)
  qed
  from g s d show ?thesis by blast
qed

theorem GenCache_negative_size_disabled_witness:
  "Cache (conf_full\<lparr>Cache := Some \<lparr>Size = - 1, MinTTL = 60, MaxTTL = 86400\<rparr>\<rparr>) =
     Some \<lparr>Size = - 1, MinTTL = 60, MaxTTL = 86400\<rparr>
   \<and> NewDNSCache (cache_env conf_full files_full) = NewDNSCache_spec
   \<and> sint (- 1 :: go_int) < 0
   \<and> (\<exists>conf' c.
         GenCache (cache_env conf_full files_full)
           (conf_full\<lparr>Cache := Some \<lparr>Size = - 1, MinTTL = 60, MaxTTL = 86400\<rparr>\<rparr>) =
           Returned (conf', c)
         \<and> cache_size c = - 1
         \<and> DNSCache_Get c 0 ''example.com'' = None
         \<and> DNSCache_Set 0 c 0 ''example.com'' response300 = c)"
proof -
  let ?conf = "conf_full\<lparr>Cache := Some \<lparr>Size = - 1, MinTTL = 60, MaxTTL = 86400\<rparr>\<rparr>"
  let ?e = "cache_env conf_full files_full :: (string, string, string,
      string \<times> string \<times> go_int, string DNSCache) env"
  have 1: "Cache ?conf = Some \<lparr>Size = - 1, MinTTL = 60, MaxTTL = 86400\<rparr>"
    by simp
  have 2: "NewDNSCache ?e = NewDNSCache_spec"
    by (simp add: cache_env_def)
  have 3: "sint (- 1 :: go_int) < 0"
    by simp
  from GenCache_negative_size_disabled [OF 1 2] 3 obtain conf' c where
    "GenCache ?e ?conf = Returned (conf', c)" "cache_size c = - 1"
    "DNSCache_Get c 0 ''example.com'' = None"
    "DNSCache_Set 0 c 0 ''example.com'' response300 = c"
    by auto
  with 1 2 3 show ?thesis
    by blast
qed

end
